theory Spec2Isabelle
  imports Complex_Main "HOL-Library.Word"
begin

section \<open>Strings\<close>

text \<open>
  A JavaScript string is a sequence of UTF-16 code units. String literals of the source
  are ASCII and are written through \<open>utf16\<close>.
\<close>

type_synonym code_unit = "16 word"
type_synonym jsstring = "code_unit list"

definition utf16 :: "string \<Rightarrow> jsstring" where
  "utf16 s = map (\<lambda>c. word_of_nat (of_char c)) s"

definition LBRACE :: code_unit where
  "LBRACE = 0x7B"

definition RBRACE :: code_unit where
  "RBRACE = 0x7D"

definition QUOTE :: code_unit where
  "QUOTE = 0x27"

text \<open>
  \<open>String.prototype.trim\<close> strips WhiteSpace and LineTerminator code points from both
  ends: TAB, LF, VT, FF, CR, SP, NBSP, the Unicode space separators, LS, PS and the BOM.
\<close>

definition isWhiteSpace :: "code_unit \<Rightarrow> bool" where
  "isWhiteSpace c \<longleftrightarrow>
     c \<in> {0x0009, 0x000A, 0x000B, 0x000C, 0x000D, 0x0020, 0x00A0, 0x1680,
          0x2028, 0x2029, 0x202F, 0x205F, 0x3000, 0xFEFF}
     \<or> (0x2000 \<le> c \<and> c \<le> 0x200A)"

definition trim :: "jsstring \<Rightarrow> jsstring" where
  "trim s = rev (dropWhile isWhiteSpace (rev (dropWhile isWhiteSpace s)))"


section \<open>The regular expression of templateProcessor.ts\<close>

text \<open>
  Both \<open>extractVariables\<close> and \<open>processTemplate\<close> use the literal
  \<^verbatim>\<open>/\{\{([^}]+)\}\}/g\<close>: two opening braces, the group \<^verbatim>\<open>[^}]+\<close> (one or more code
  units other than a closing brace, greedy), two closing braces.

  \<open>backtrack k t\<close> is the quantifier of the group on the text \<open>t\<close> that follows the
  opening braces: it tries the group at length \<open>k\<close>, then at every shorter length down
  to one, and at each length asks for the two closing braces. It answers the captured
  text and the text after the match.
\<close>

fun backtrack :: "nat \<Rightarrow> jsstring \<Rightarrow> (jsstring \<times> jsstring) option" where
  "backtrack 0 t = None"
| "backtrack (Suc k) t =
     (if take 2 (drop (Suc k) t) = [RBRACE, RBRACE]
      then Some (take (Suc k) t, drop (Suc k + 2) t)
      else backtrack k t)"

text \<open>
  The pattern tried at the start of \<open>s\<close>. The greedy group first takes every code unit
  up to the next closing brace. The answer is \<open>(match[0], match[1], text after)\<close>.
\<close>

fun match_here :: "jsstring \<Rightarrow> (jsstring \<times> jsstring \<times> jsstring) option" where
  "match_here (a # b # t) =
     (if a = LBRACE \<and> b = LBRACE
      then (case backtrack (length (takeWhile (\<lambda>c. c \<noteq> RBRACE) t)) t of
              Some (cap, rest) \<Rightarrow> Some (a # b # cap @ [RBRACE, RBRACE], cap, rest)
            | None \<Rightarrow> None)
      else None)"
| "match_here _ = None"

text \<open>
  \<open>regex.exec\<close> with the global flag searches from \<open>lastIndex\<close> for the leftmost
  position where the pattern matches, and moves \<open>lastIndex\<close> behind the match. The
  argument is the text from \<open>lastIndex\<close> on; the answer is the text skipped before the
  match, \<open>match[0]\<close>, \<open>match[1]\<close> and the text from the new \<open>lastIndex\<close> on. \<open>None\<close>
  is the source's \<open>null\<close>.
\<close>

fun regex_exec :: "jsstring \<Rightarrow> (jsstring \<times> jsstring \<times> jsstring \<times> jsstring) option" where
  "regex_exec [] = None"
| "regex_exec (c # cs) =
     (case match_here (c # cs) of
        Some (whole, cap, rest) \<Rightarrow> Some ([], whole, cap, rest)
      | None \<Rightarrow>
          (case regex_exec cs of
             Some (pre, whole, cap, rest) \<Rightarrow> Some (c # pre, whole, cap, rest)
           | None \<Rightarrow> None))"

lemma takeWhile_run:
  "RBRACE \<notin> set cap \<Longrightarrow> takeWhile (\<lambda>c. c \<noteq> RBRACE) (cap @ RBRACE # rest) = cap"
  by (induction cap) auto

lemma dropWhile_run:
  "RBRACE \<notin> set cap \<Longrightarrow> dropWhile (\<lambda>c. c \<noteq> RBRACE) (cap @ RBRACE # rest) = RBRACE # rest"
  by (induction cap) auto

lemma backtrack_Some:
  "backtrack k t = Some (cap, rest) \<Longrightarrow>
     t = cap @ [RBRACE, RBRACE] @ rest \<and> cap \<noteq> [] \<and> length cap \<le> k"
proof (induction k)
  case 0
  then show ?case by simp
next
  case (Suc k)
  show ?case
  proof (cases "take 2 (drop (Suc k) t) = [RBRACE, RBRACE]")
    case True
    with Suc.prems have c: "cap = take (Suc k) t" and r: "rest = drop (Suc k + 2) t"
      by simp_all
    from True have len: "Suc k < length t"
      by (cases "Suc k < length t") simp_all
    have "drop (Suc k) t = take 2 (drop (Suc k) t) @ drop 2 (drop (Suc k) t)"
      by (rule append_take_drop_id [symmetric])
    with True r have "drop (Suc k) t = [RBRACE, RBRACE] @ rest"
      by (simp add: add.commute)
    with c have "t = cap @ [RBRACE, RBRACE] @ rest"
      by (metis append_take_drop_id)
    moreover from c len have "cap \<noteq> []" "length cap \<le> Suc k"
      by auto
    ultimately show ?thesis by simp
  next
    case False
    with Suc.prems have "backtrack k t = Some (cap, rest)" by simp
    with Suc.IH show ?thesis by simp
  qed
qed

lemma backtrack_run:
  assumes "backtrack k t = Some (cap, rest)"
    and "k \<le> length (takeWhile (\<lambda>c. c \<noteq> RBRACE) t)"
  shows "cap = takeWhile (\<lambda>c. c \<noteq> RBRACE) t"
proof -
  let ?run = "takeWhile (\<lambda>c. c \<noteq> RBRACE) t"
  from backtrack_Some [OF assms(1)]
  have t: "t = cap @ [RBRACE, RBRACE] @ rest" and len: "length cap \<le> k"
    by simp_all
  from len assms(2) have "length cap \<le> length ?run" by simp
  moreover have "cap = take (length cap) t" using t
    by (metis append_eq_conv_conj)
  ultimately have "cap = take (length cap) ?run"
    by (metis append_eq_conv_conj takeWhile_dropWhile_id take_append
        diff_is_0_eq take_0 append_Nil2)
  then have "set cap \<subseteq> set ?run"
    by (metis set_take_subset)
  then have "RBRACE \<notin> set cap"
    by (auto dest: set_takeWhileD)
  then have "takeWhile (\<lambda>c. c \<noteq> RBRACE) (cap @ RBRACE # RBRACE # rest) = cap"
    by (rule takeWhile_run)
  with t show ?thesis by simp
qed

lemma backtrack_complete:
  "t = cap @ [RBRACE, RBRACE] @ rest \<Longrightarrow> cap \<noteq> [] \<Longrightarrow> length cap \<le> k \<Longrightarrow>
     RBRACE \<notin> set cap \<Longrightarrow> k \<le> length (takeWhile (\<lambda>c. c \<noteq> RBRACE) t) \<Longrightarrow>
     backtrack k t = Some (cap, rest)"
proof (induction k)
  case 0
  then show ?case by simp
next
  case (Suc k)
  from Suc.prems(1,4) have run: "takeWhile (\<lambda>c. c \<noteq> RBRACE) t = cap"
    by (simp add: takeWhile_run)
  with Suc.prems(3,5) have "length cap = Suc k" by simp
  with Suc.prems(1) show ?case by simp
qed

lemma match_here_Some:
  assumes "match_here s = Some (whole, cap, rest)"
  shows "s = whole @ rest" and "whole = [LBRACE, LBRACE] @ cap @ [RBRACE, RBRACE]"
    and "cap \<noteq> []" and "RBRACE \<notin> set cap"
    and "cap = takeWhile (\<lambda>c. c \<noteq> RBRACE) (drop 2 s)"
proof -
  from assms obtain a b t where s: "s = a # b # t"
    by (cases s rule: match_here.cases) simp_all
  from assms s have ab: "a = LBRACE" "b = LBRACE"
    by (simp_all split: if_splits)
  let ?run = "takeWhile (\<lambda>c. c \<noteq> RBRACE) t"
  from assms s ab have bt: "backtrack (length ?run) t = Some (cap, rest)"
    and w: "whole = a # b # cap @ [RBRACE, RBRACE]"
    by (auto split: option.splits)
  from backtrack_Some [OF bt] have t: "t = cap @ [RBRACE, RBRACE] @ rest" and ne: "cap \<noteq> []"
    by simp_all
  from backtrack_run [OF bt] have run: "cap = ?run" by simp
  then have nb: "RBRACE \<notin> set cap"
    by (metis (mono_tags, lifting) set_takeWhileD)
  show "s = whole @ rest"
    unfolding s w ab by (subst t) simp
  show "whole = [LBRACE, LBRACE] @ cap @ [RBRACE, RBRACE]"
    unfolding w ab by simp
  show "cap = takeWhile (\<lambda>c. c \<noteq> RBRACE) (drop 2 s)"
    unfolding s using run by simp
  show "cap \<noteq> []" by (rule ne)
  show "RBRACE \<notin> set cap" by (rule nb)
qed

lemma match_here_complete:
  assumes "cap \<noteq> []" and "RBRACE \<notin> set cap"
  shows "match_here ([LBRACE, LBRACE] @ cap @ [RBRACE, RBRACE] @ rest)
           = Some ([LBRACE, LBRACE] @ cap @ [RBRACE, RBRACE], cap, rest)"
proof -
  let ?t = "cap @ [RBRACE, RBRACE] @ rest"
  from assms(2) have run: "takeWhile (\<lambda>c. c \<noteq> RBRACE) ?t = cap"
    by (simp add: takeWhile_run)
  have "backtrack (length cap) ?t = Some (cap, rest)"
    by (rule backtrack_complete) (use assms run in simp_all)
  with run show ?thesis by simp
qed

lemma regex_exec_Some:
  "regex_exec s = Some (pre, whole, cap, rest) \<Longrightarrow>
     s = pre @ whole @ rest \<and> match_here (whole @ rest) = Some (whole, cap, rest)
     \<and> (\<forall>i < length pre. match_here (drop i s) = None)"
proof (induction s arbitrary: pre)
  case Nil
  then show ?case by simp
next
  case (Cons c cs)
  show ?case
  proof (cases "match_here (c # cs)")
    case (Some m)
    from Cons.prems have "(case m of (whole, cap, rest) \<Rightarrow> Some ([], whole, cap, rest))
        = Some (pre, whole, cap, rest)"
      unfolding regex_exec.simps Some option.case .
    then have m: "m = (whole, cap, rest)" and p: "pre = []"
      by (cases m; simp)+
    from Some have mh: "match_here (c # cs) = Some (whole, cap, rest)"
      unfolding m .
    note e = match_here_Some(1) [OF mh]
    from mh have "match_here (whole @ rest) = Some (whole, cap, rest)"
      unfolding e .
    moreover have "\<forall>i < length pre. match_here (drop i (c # cs)) = None"
      unfolding p by simp
    moreover from e have "c # cs = pre @ whole @ rest" unfolding p by simp
    ultimately show ?thesis by (intro conjI)
  next
    case None
    from Cons.prems have "(case regex_exec cs of
         Some (pre, whole, cap, rest) \<Rightarrow> Some (c # pre, whole, cap, rest)
       | None \<Rightarrow> None) = Some (pre, whole, cap, rest)"
      unfolding regex_exec.simps None option.case .
    then obtain pre' where r: "regex_exec cs = Some (pre', whole, cap, rest)"
      and p: "pre = c # pre'"
      by (cases "regex_exec cs") auto
    note ih = Cons.IH [OF r]
    note ih1 = ih [THEN conjunct1]
    note ih2 = ih [THEN conjunct2, THEN conjunct1]
    note ih3 = ih [THEN conjunct2, THEN conjunct2]
    have "match_here (drop i (c # cs)) = None" if "i < length pre" for i
    proof (cases i)
      case 0
      with None show ?thesis by simp
    next
      case (Suc j)
      from that have "j < length pre'" unfolding p Suc by simp
      with ih3 [rule_format, of j] have "match_here (drop j cs) = None" .
      then show ?thesis unfolding Suc by simp
    qed
    then have 3: "\<forall>i < length pre. match_here (drop i (c # cs)) = None"
      by (intro allI impI)
    from ih1 have 1: "c # cs = pre @ whole @ rest" unfolding p by simp
    from 1 ih2 3 show ?thesis by (intro conjI)
  qed
qed

lemma regex_exec_None:
  "regex_exec s = None \<longleftrightarrow> (\<forall>i. match_here (drop i s) = None)"
proof (induction s)
  case Nil
  then show ?case by simp
next
  case (Cons c cs)
  show ?case
  proof
    assume n: "regex_exec (c # cs) = None"
    then have h: "match_here (c # cs) = None" and r: "regex_exec cs = None"
      by (auto split: option.splits)
    show "\<forall>i. match_here (drop i (c # cs)) = None"
    proof
      fix i
      show "match_here (drop i (c # cs)) = None"
      proof (cases i)
        case 0
        with h show ?thesis by simp
      next
        case (Suc j)
        with r Cons.IH show ?thesis by simp
      qed
    qed
  next
    assume a: "\<forall>i. match_here (drop i (c # cs)) = None"
    from a [rule_format, of 0] have h: "match_here (c # cs) = None" by simp
    have "\<forall>i. match_here (drop i cs) = None"
    proof
      fix i
      from a [rule_format, of "Suc i"] show "match_here (drop i cs) = None" by simp
    qed
    with Cons.IH have "regex_exec cs = None" by simp
    with h show "regex_exec (c # cs) = None" by simp
  qed
qed

lemma regex_exec_shorter:
  assumes "regex_exec s = Some (pre, whole, cap, rest)"
  shows "length rest < length s"
proof -
  note s = regex_exec_Some [OF assms, THEN conjunct1]
  note m = regex_exec_Some [OF assms, THEN conjunct2, THEN conjunct1]
  from match_here_Some(2) [OF m] have "0 < length whole" by simp
  then show ?thesis unfolding s by simp
qed


section \<open>The data model (types)\<close>

text \<open>
  A \<open>Date\<close> holds a time value: milliseconds since the epoch, or \<open>NaN\<close> for an invalid
  date, which is \<open>None\<close> here.
\<close>

type_synonym Date = "int option"

text \<open>
  The interfaces \<open>Template\<close>, \<open>Variable\<close> and \<open>ValidationError\<close>. The fields \<open>id\<close>,
  \<open>createdAt\<close> and \<open>updatedAt\<close> carry the name of their record, and \<open>val\<close> is the
  field \<open>value\<close> of a variable.
\<close>

record Template =
  template_id :: jsstring
  title :: jsstring
  content :: jsstring
  template_createdAt :: Date
  template_updatedAt :: Date

record Variable =
  variable_id :: jsstring
  name :: jsstring
  val :: jsstring
  description :: "jsstring option"
  variable_createdAt :: Date
  variable_updatedAt :: Date

record ValidationError =
  field :: jsstring
  message :: jsstring


section \<open>templateProcessor.ts\<close>

text \<open>
  The functions that the tests import from \<open>templateProcessor\<close>: \<open>extractVariables\<close>,
  \<open>validateTemplate\<close> and \<open>processTemplate\<close>.

  The \<open>while\<close> loop of \<open>extractVariables\<close>. Its state is the regex's \<open>lastIndex\<close>,
  held as the text from there on, and the array \<open>variables\<close>. A name is pushed when it
  is truthy (not the empty string) and not yet included.
\<close>

function extract_loop :: "jsstring \<Rightarrow> jsstring list \<Rightarrow> jsstring list" where
  "extract_loop str variables =
     (case regex_exec str of
        None \<Rightarrow> variables
      | Some (pre, whole, cap, rest) \<Rightarrow>
          (let variableName = trim cap in
           if variableName \<noteq> [] \<and> variableName \<notin> set variables
           then extract_loop rest (variables @ [variableName])
           else extract_loop rest variables))"
  by pat_completeness auto
termination
  by (relation "measure (\<lambda>(str, variables). length str)")
    (auto dest: regex_exec_shorter)

definition extractVariables :: "jsstring \<Rightarrow> jsstring list" where
  "extractVariables c = extract_loop c []"

text \<open>
  \<open>validateTemplate\<close>: the \<open>for ... of\<close> loop over the required names, pushing one
  error for each name that \<open>availableVariableNames\<close> does not include.
\<close>

definition validateTemplate :: "Template \<Rightarrow> Variable list \<Rightarrow> ValidationError list" where
  "validateTemplate template availableVariables =
     (let requiredVariables = extractVariables (content template);
          availableVariableNames = map name availableVariables
      in foldl
           (\<lambda>errors variableName.
              if variableName \<notin> set availableVariableNames
              then errors @
                [\<lparr>field = utf16 ''content'',
                  message = utf16 ''Variable '' @ [QUOTE] @ variableName @ [QUOTE]
                            @ utf16 '' is not defined in settings''\<rparr>]
              else errors)
           [] requiredVariables)"

text \<open>
  \<open>new Map(variables.map(v => [v.name, v.value]))\<close> sets the entries in order, so a later
  variable of the same name overwrites an earlier one.
\<close>

definition variableMap :: "Variable list \<Rightarrow> (jsstring \<rightharpoonup> jsstring)" where
  "variableMap variables = foldl (\<lambda>m v. m(name v \<mapsto> val v)) Map.empty variables"

text \<open>
  The replacer function of \<open>processTemplate\<close>: \<open>variableMap.get(trimmedName) || match\<close>.
  The left operand is falsy when the name has no entry (\<open>undefined\<close>) and when its
  entry is the empty string.
\<close>

definition replacer :: "(jsstring \<rightharpoonup> jsstring) \<Rightarrow> jsstring \<Rightarrow> jsstring \<Rightarrow> jsstring" where
  "replacer vm whole variableName =
     (let trimmedName = trim variableName in
      case vm trimmedName of
        Some v \<Rightarrow> if v \<noteq> [] then v else whole
      | None \<Rightarrow> whole)"

text \<open>
  \<open>String.prototype.replace\<close> with the global regex and a function: every match, found
  as by repeated \<open>exec\<close>, is replaced with what the function returns for it (taken
  literally); the text between the matches and after the last one is kept.
\<close>

function String_replace :: "(jsstring \<Rightarrow> jsstring \<Rightarrow> jsstring) \<Rightarrow> jsstring \<Rightarrow> jsstring" where
  "String_replace f str =
     (case regex_exec str of
        None \<Rightarrow> str
      | Some (pre, whole, cap, rest) \<Rightarrow> pre @ f whole cap @ String_replace f rest)"
  by pat_completeness auto
termination
  by (relation "measure (\<lambda>(f, str). length str)")
    (auto dest: regex_exec_shorter)

definition processTemplate :: "Template \<Rightarrow> Variable list \<Rightarrow> jsstring" where
  "processTemplate template variables =
     (let processedContent = content template;
          vm = variableMap variables
      in String_replace (replacer vm) processedContent)"

declare extract_loop.simps [simp del]
declare String_replace.simps [simp del]


section \<open>JavaScript values\<close>

text \<open>
  storage.ts works on values of type \<open>any\<close>: what the store returns and what
  \<open>JSON.parse\<close> returns. These are the values without functions: primitives, \<open>Date\<close>
  objects, arrays and plain objects. An object is the list of its own properties in
  property order, each name once.

  A Number is an IEEE double; \<open>Finite q\<close> holds the exact value of a finite double
  (\<open>Finite 0\<close> is \<open>+0\<close>). The source does no arithmetic on numbers.
\<close>

datatype number = NaN | PosInfinity | NegInfinity | NegZero | Finite rat

datatype jsval =
    Undefined
  | Null
  | Bool bool
  | Num number
  | Str jsstring
  | DateObj Date
  | Arr "jsval list"
  | Obj "(jsstring \<times> jsval) list"

datatype exn = TypeError | SyntaxError | Error jsstring

text \<open>Sequencing of steps that may throw: the first exception ends the block.\<close>

definition bind_exn :: "exn + 'a \<Rightarrow> ('a \<Rightarrow> exn + 'b) \<Rightarrow> exn + 'b" where
  "bind_exn x f = (case x of Inl e \<Rightarrow> Inl e | Inr v \<Rightarrow> f v)"

text \<open>\<open>ToBoolean\<close>: what \<open>!x\<close> and \<open>x || y\<close> test.\<close>

fun ToBoolean :: "jsval \<Rightarrow> bool" where
  "ToBoolean Undefined = False"
| "ToBoolean Null = False"
| "ToBoolean (Bool b) = b"
| "ToBoolean (Num n) = (n \<noteq> NaN \<and> n \<noteq> NegZero \<and> n \<noteq> Finite 0)"
| "ToBoolean (Str s) = (s \<noteq> [])"
| "ToBoolean (DateObj d) = True"
| "ToBoolean (Arr xs) = True"
| "ToBoolean (Obj kvs) = True"

text \<open>
  Reading a property \<open>x.k\<close> or \<open>x[k]\<close>, for the names the source reads
  (\<open>support_templates\<close>, \<open>support_variables\<close>, \<open>templates\<close>, \<open>variables\<close>,
  \<open>createdAt\<close>, \<open>updatedAt\<close>): none is an index or a property of a prototype, so only a
  plain object can have one. Reading from \<open>undefined\<close> or \<open>null\<close> throws.
\<close>

fun Get :: "jsval \<Rightarrow> jsstring \<Rightarrow> exn + jsval" where
  "Get Undefined k = Inl TypeError"
| "Get Null k = Inl TypeError"
| "Get (Obj kvs) k = Inr (case map_of kvs k of Some v \<Rightarrow> v | None \<Rightarrow> Undefined)"
| "Get x k = Inr Undefined"

text \<open>
  The method call \<open>x.map(f)\<close>. Only an array has a callable \<open>map\<close>: no value here holds
  a function, so on anything else the call throws. The callback may throw, which ends the
  map.
\<close>

fun mapM :: "('a \<Rightarrow> exn + 'b) \<Rightarrow> 'a list \<Rightarrow> exn + 'b list" where
  "mapM f [] = Inr []"
| "mapM f (x # xs) =
     bind_exn (f x) (\<lambda>y. bind_exn (mapM f xs) (\<lambda>ys. Inr (y # ys)))"

fun call_map :: "jsval \<Rightarrow> (jsval \<Rightarrow> exn + jsval) \<Rightarrow> exn + jsval list" where
  "call_map (Arr xs) f = mapM f xs"
| "call_map x f = Inl TypeError"

text \<open>The decimal name of an array index.\<close>

fun decimal :: "nat \<Rightarrow> jsstring" where
  "decimal n =
     (if n < 10 then [0x30 + word_of_nat n]
      else decimal (n div 10) @ [0x30 + word_of_nat (n mod 10)])"

declare decimal.simps [simp del]

text \<open>
  The spread \<open>{...x}\<close> copies the own enumerable properties of \<open>x\<close>: the properties of a
  plain object, the elements of an array and the code units of a string under their
  indices, and nothing for any other value.
\<close>

fun own_properties :: "jsval \<Rightarrow> (jsstring \<times> jsval) list" where
  "own_properties (Obj kvs) = kvs"
| "own_properties (Arr xs) = zip (map decimal [0..<length xs]) xs"
| "own_properties (Str s) = zip (map decimal [0..<length s]) (map (\<lambda>c. Str [c]) s)"
| "own_properties x = []"

text \<open>
  A property \<open>k: v\<close> written after the spread in an object literal: it replaces the value of
  an existing property \<open>k\<close> where that stands, and is added at the end otherwise.
\<close>

fun set_prop :: "(jsstring \<times> jsval) list \<Rightarrow> jsstring \<Rightarrow> jsval \<Rightarrow> (jsstring \<times> jsval) list" where
  "set_prop [] k v = [(k, v)]"
| "set_prop ((k', v') # kvs) k v =
     (if k' = k then (k, v) # kvs else (k', v') # set_prop kvs k v)"


section \<open>The built-in functions of the runtime\<close>

text \<open>
  The source calls these and does not define them; the model takes them as a parameter.
  \<^item> \<open>JSON_parse\<close>: \<open>JSON.parse\<close>; \<open>None\<close> is the \<open>SyntaxError\<close> it throws.
  \<^item> \<open>JSON_stringify\<close>: \<open>JSON.stringify(x, null, 2)\<close>.
  \<^item> \<open>Date_parse\<close>: the time value that \<open>new Date(s)\<close> reads from a string, \<open>None\<close> when
    it reads none.
  \<^item> \<open>Date_toISOString\<close>: \<open>toISOString\<close> of a date with the given time value.
  \<^item> \<open>Date_of_object\<close>: \<open>new Date(x)\<close> for an array or a plain object \<open>x\<close>, which goes
    through \<open>ToPrimitive\<close> and may throw.
\<close>

record runtime =
  JSON_parse :: "jsstring \<Rightarrow> jsval option"
  JSON_stringify :: "jsval \<Rightarrow> jsstring"
  Date_parse :: "jsstring \<Rightarrow> Date"
  Date_toISOString :: "int \<Rightarrow> jsstring"
  Date_of_object :: "jsval \<Rightarrow> exn + Date"

text \<open>
  \<open>TimeClip\<close> of a Number: not a time value when it is not finite or beyond 8.64e15 ms,
  and truncated to an integer otherwise.
\<close>

fun TimeClip :: "number \<Rightarrow> Date" where
  "TimeClip (Finite q) =
     (if \<bar>q\<bar> \<le> 8640000000000000 then Some (if q < 0 then - \<lfloor>- q\<rfloor> else \<lfloor>q\<rfloor>) else None)"
| "TimeClip NegZero = Some 0"
| "TimeClip n = None"

text \<open>\<open>new Date(x)\<close>: the time value of the new date, or the exception thrown.\<close>

fun new_Date :: "runtime \<Rightarrow> jsval \<Rightarrow> exn + Date" where
  "new_Date rt (DateObj d) = Inr d"
| "new_Date rt (Str s) = Inr (Date_parse rt s)"
| "new_Date rt Undefined = Inr None"
| "new_Date rt Null = Inr (Some 0)"
| "new_Date rt (Bool b) = Inr (Some (if b then 1 else 0))"
| "new_Date rt (Num n) = Inr (TimeClip n)"
| "new_Date rt (Arr xs) = Date_of_object rt (Arr xs)"
| "new_Date rt (Obj kvs) = Date_of_object rt (Obj kvs)"


section \<open>The store\<close>

text \<open>
  \<open>chrome.storage.local\<close> is outside the source. A store behaviour gives, for each call
  and each state of the store, the outcome of the promise (rejected with an exception, or
  resolved) and the next state. \<open>local_get k\<close> resolves to the result object of
  \<open>get(k)\<close>; \<open>local_set k v\<close> is \<open>set({[k]: v})\<close>.
\<close>

record 's storage_area =
  local_get :: "jsstring \<Rightarrow> 's \<Rightarrow> (exn + jsval) \<times> 's"
  local_set :: "jsstring \<Rightarrow> jsval \<Rightarrow> 's \<Rightarrow> (exn + unit) \<times> 's"
  local_remove :: "jsstring list \<Rightarrow> 's \<Rightarrow> (exn + unit) \<times> 's"

text \<open>
  The store that works: it holds the items as they were set, \<open>get\<close> resolves to an object
  with the item when there is one and to the empty object otherwise, and no call fails.
\<close>

definition memory_store :: "((jsstring \<times> jsval) list) storage_area" where
  "memory_store =
     \<lparr>local_get = (\<lambda>k s. (Inr (Obj (case map_of s k of Some v \<Rightarrow> [(k, v)] | None \<Rightarrow> [])), s)),
      local_set = (\<lambda>k v s. (Inr (), set_prop s k v)),
      local_remove = (\<lambda>ks s. (Inr (), filter (\<lambda>(k, v). k \<notin> set ks) s))\<rparr>"


section \<open>storage.ts\<close>

definition TEMPLATES :: jsstring where
  "TEMPLATES = utf16 ''support_templates''"

definition VARIABLES :: jsstring where
  "VARIABLES = utf16 ''support_variables''"

text \<open>
  The callback of the four maps of storage.ts:
  \<^verbatim>\<open>(x: any) => ({...x, createdAt: new Date(x.createdAt), updatedAt: new Date(x.updatedAt)})\<close>
\<close>

definition rehydrate :: "runtime \<Rightarrow> jsval \<Rightarrow> exn + jsval" where
  "rehydrate rt x =
     bind_exn (Get x (utf16 ''createdAt'')) (\<lambda>c.
     bind_exn (new_Date rt c) (\<lambda>createdAt.
     bind_exn (Get x (utf16 ''updatedAt'')) (\<lambda>u.
     bind_exn (new_Date rt u) (\<lambda>updatedAt.
       Inr (Obj (set_prop (set_prop (own_properties x)
                   (utf16 ''createdAt'') (DateObj createdAt))
                   (utf16 ''updatedAt'') (DateObj updatedAt)))))))"

text \<open>
  \<open>getTemplates\<close> and \<open>getVariables\<close> differ in the key only. \<open>load_try\<close> is the \<open>try\<close>
  block after the \<open>await\<close>: \<open>result[key] || []\<close>, then the map. The \<open>catch\<close> block logs
  and returns the empty array.
\<close>

definition load_try :: "runtime \<Rightarrow> jsstring \<Rightarrow> jsval \<Rightarrow> exn + jsval list" where
  "load_try rt key result =
     bind_exn (Get result key) (\<lambda>stored.
       let items = (if ToBoolean stored then stored else Arr [])
       in call_map items (rehydrate rt))"

definition load :: "runtime \<Rightarrow> 's storage_area \<Rightarrow> jsstring \<Rightarrow> 's \<Rightarrow> (exn + jsval list) \<times> 's" where
  "load rt chrome key s =
     (case local_get chrome key s of
        (r, s') \<Rightarrow>
          (case bind_exn r (load_try rt key) of
             Inl error \<Rightarrow> (Inr [], s')
           | Inr items \<Rightarrow> (Inr items, s')))"

definition getTemplates :: "runtime \<Rightarrow> 's storage_area \<Rightarrow> 's \<Rightarrow> (exn + jsval list) \<times> 's" where
  "getTemplates rt chrome s = load rt chrome TEMPLATES s"

definition getVariables :: "runtime \<Rightarrow> 's storage_area \<Rightarrow> 's \<Rightarrow> (exn + jsval list) \<times> 's" where
  "getVariables rt chrome s = load rt chrome VARIABLES s"

text \<open>\<open>saveTemplates\<close> and \<open>saveVariables\<close>: the \<open>catch\<close> block logs and throws the error again.\<close>

definition saveTemplates :: "'s storage_area \<Rightarrow> jsval list \<Rightarrow> 's \<Rightarrow> (exn + unit) \<times> 's" where
  "saveTemplates chrome templates s =
     (case local_set chrome TEMPLATES (Arr templates) s of
        (Inl error, s') \<Rightarrow> (Inl error, s')
      | (Inr u, s') \<Rightarrow> (Inr (), s'))"

definition saveVariables :: "'s storage_area \<Rightarrow> jsval list \<Rightarrow> 's \<Rightarrow> (exn + unit) \<times> 's" where
  "saveVariables chrome variables s =
     (case local_set chrome VARIABLES (Arr variables) s of
        (Inl error, s') \<Rightarrow> (Inl error, s')
      | (Inr u, s') \<Rightarrow> (Inr (), s'))"


definition saveAllData ::
  "'s storage_area \<Rightarrow> jsval list \<times> jsval list \<Rightarrow> 's \<Rightarrow> (exn + unit) \<times> 's" where
  "saveAllData chrome data s =
     (case saveTemplates chrome (fst data) s of
        (r1, s1) \<Rightarrow>
          (case saveVariables chrome (snd data) s1 of
             (r2, s2) \<Rightarrow> (bind_exn r1 (\<lambda>u. r2), s2)))"

definition clearAllData :: "'s storage_area \<Rightarrow> 's \<Rightarrow> (exn + unit) \<times> 's" where
  "clearAllData chrome s =
     (case local_remove chrome [TEMPLATES, VARIABLES] s of
        (Inl error, s') \<Rightarrow> (Inl error, s')
      | (Inr u, s') \<Rightarrow> (Inr (), s'))"



text \<open>
  \<open>importData\<close>. \<open>import_try\<close> is the \<open>try\<close> block up to the call of \<open>saveAllData\<close>:
  parse, the check of the two fields, the two maps. The \<open>catch\<close> block logs and throws
  the one error of the import, whatever was thrown.
\<close>

definition IMPORT_FAILED :: exn where
  "IMPORT_FAILED = Error (utf16 ''Failed to import data. Please check the file format.'')"

definition import_try :: "runtime \<Rightarrow> jsstring \<Rightarrow> exn + jsval list \<times> jsval list" where
  "import_try rt jsonData =
     (case JSON_parse rt jsonData of
        None \<Rightarrow> Inl SyntaxError
      | Some importData \<Rightarrow>
          bind_exn (Get importData (utf16 ''templates'')) (\<lambda>ts.
            if \<not> ToBoolean ts then Inl (Error (utf16 ''Invalid import data structure''))
            else
          bind_exn (Get importData (utf16 ''variables'')) (\<lambda>vs.
            if \<not> ToBoolean vs then Inl (Error (utf16 ''Invalid import data structure''))
            else
          bind_exn (call_map ts (rehydrate rt)) (\<lambda>templates.
          bind_exn (call_map vs (rehydrate rt)) (\<lambda>variables.
            Inr (templates, variables))))))"

definition importData ::
  "runtime \<Rightarrow> 's storage_area \<Rightarrow> jsstring \<Rightarrow> 's \<Rightarrow> (exn + unit) \<times> 's" where
  "importData rt chrome jsonData s =
     (case import_try rt jsonData of
        Inl error \<Rightarrow> (Inl IMPORT_FAILED, s)
      | Inr data \<Rightarrow>
          (case saveAllData chrome data s of
             (Inl error, s') \<Rightarrow> (Inl IMPORT_FAILED, s')
           | (Inr u, s') \<Rightarrow> (Inr (), s')))"


section \<open>Placeholders of a content, for stating the properties\<close>

text \<open>
  The content cut at the matches that repeated \<open>exec\<close> finds, left to right: the text
  between two matches is a \<open>Literal\<close>, a match is a \<open>Placeholder\<close> holding its inner
  text \<open>match[1]\<close>, untrimmed.
\<close>

datatype segment = Literal jsstring | Placeholder jsstring

fun source_text :: "segment \<Rightarrow> jsstring" where
  "source_text (Literal l) = l"
| "source_text (Placeholder inner) = [LBRACE, LBRACE] @ inner @ [RBRACE, RBRACE]"

function scan :: "jsstring \<Rightarrow> segment list" where
  "scan str =
     (case regex_exec str of
        None \<Rightarrow> [Literal str]
      | Some (pre, whole, cap, rest) \<Rightarrow> Literal pre # Placeholder cap # scan rest)"
  by pat_completeness auto
termination
  by (relation "measure length") (auto dest: regex_exec_shorter)

declare scan.simps [simp del]

fun placeholders :: "segment list \<Rightarrow> jsstring list" where
  "placeholders [] = []"
| "placeholders (Literal l # segs) = placeholders segs"
| "placeholders (Placeholder inner # segs) = inner # placeholders segs"

text \<open>Every element once, at the place of its first occurrence.\<close>

primrec dedup_first :: "'a list \<Rightarrow> 'a list" where
  "dedup_first [] = []"
| "dedup_first (x # xs) = x # filter (\<lambda>y. y \<noteq> x) (dedup_first xs)"

text \<open>
  An occurrence of the marker pattern: two opening braces, a non-empty text without a
  closing brace, two closing braces.
\<close>

definition contains_placeholder :: "jsstring \<Rightarrow> bool" where
  "contains_placeholder c \<longleftrightarrow>
     (\<exists>pre inner post. c = pre @ [LBRACE, LBRACE] @ inner @ [RBRACE, RBRACE] @ post
        \<and> inner \<noteq> [] \<and> RBRACE \<notin> set inner)"

text \<open>
  What a segment becomes under a name-to-value mapping: a literal stays; a placeholder is
  replaced with the value under its trimmed name, and stays as it is written when the
  name has no value or the empty value.
\<close>

fun substituted :: "(jsstring \<rightharpoonup> jsstring) \<Rightarrow> segment \<Rightarrow> jsstring" where
  "substituted m (Literal l) = l"
| "substituted m (Placeholder inner) =
     (case m (trim inner) of
        None \<Rightarrow> source_text (Placeholder inner)
      | Some v \<Rightarrow> if v = [] then source_text (Placeholder inner) else v)"


section \<open>Stored and loaded records, for stating the properties\<close>




















section \<open>Examples\<close>

text \<open>
  A store whose every call is rejected; a store that holds one template and one variable
  with their timestamps as ISO strings; the text of its export; and a runtime that knows
  the texts and the date of the examples. \<open>quoted\<close> writes a JSON string and \<open>member\<close>
  a member of a JSON object.
\<close>

definition failing_store :: "unit storage_area" where
  "failing_store =
     \<lparr>local_get = (\<lambda>k s. (Inl (Error (utf16 ''Storage error'')), s)),
      local_set = (\<lambda>k v s. (Inl (Error (utf16 ''Storage error'')), s)),
      local_remove = (\<lambda>ks s. (Inl (Error (utf16 ''Storage error'')), s))\<rparr>"

definition quoted :: "string \<Rightarrow> jsstring" where
  "quoted s = [0x22] @ utf16 s @ [0x22]"

definition member :: "string \<Rightarrow> string \<Rightarrow> jsstring" where
  "member k v = quoted k @ utf16 '':'' @ quoted v"

definition invalid_structure_text :: jsstring where
  "invalid_structure_text = utf16 ''{'' @ member ''invalid'' ''data'' @ utf16 ''}''"

definition not_sequences_text :: jsstring where
  "not_sequences_text =
     utf16 ''{'' @ member ''templates'' ''abc'' @ utf16 '','' @ quoted ''variables''
       @ utf16 '':5}''"

definition example_template :: jsval where
  "example_template =
     Obj [(utf16 ''id'', Str (utf16 ''1'')),
          (utf16 ''title'', Str (utf16 ''Test Template'')),
          (utf16 ''content'', Str (utf16 ''Hello {{name}}'')),
          (utf16 ''createdAt'', Str (utf16 ''2023-01-01T00:00:00.000Z'')),
          (utf16 ''updatedAt'', Str (utf16 ''2023-01-01T00:00:00.000Z''))]"

definition example_variable :: jsval where
  "example_variable =
     Obj [(utf16 ''id'', Str (utf16 ''1'')),
          (utf16 ''name'', Str (utf16 ''name'')),
          (utf16 ''value'', Str (utf16 ''John Doe'')),
          (utf16 ''createdAt'', Str (utf16 ''2023-01-01T00:00:00.000Z'')),
          (utf16 ''updatedAt'', Str (utf16 ''2023-01-01T00:00:00.000Z''))]"


definition example_export_text :: jsstring where
  "example_export_text =
     utf16 ''{'' @ quoted ''templates'' @ utf16 '':[{'' @ member ''id'' ''1'' @ utf16 '',''
       @ member ''title'' ''Test Template'' @ utf16 '',''
       @ member ''content'' ''Hello {{name}}'' @ utf16 '',''
       @ member ''createdAt'' ''2023-01-01T00:00:00.000Z'' @ utf16 '',''
       @ member ''updatedAt'' ''2023-01-01T00:00:00.000Z'' @ utf16 ''}],''
       @ quoted ''variables'' @ utf16 '':[{'' @ member ''id'' ''1'' @ utf16 '',''
       @ member ''name'' ''name'' @ utf16 '','' @ member ''value'' ''John Doe'' @ utf16 '',''
       @ member ''createdAt'' ''2023-01-01T00:00:00.000Z'' @ utf16 '',''
       @ member ''updatedAt'' ''2023-01-01T00:00:00.000Z'' @ utf16 ''}],''
       @ member ''version'' ''1.0.0'' @ utf16 '',''
       @ member ''exportedAt'' ''2023-01-01T00:00:00.000Z'' @ utf16 ''}''"

definition example_runtime :: runtime where
  "example_runtime =
     \<lparr>JSON_parse = (\<lambda>s.
        if s = example_export_text
        then Some (Obj [(utf16 ''templates'', Arr [example_template]),
                        (utf16 ''variables'', Arr [example_variable]),
                        (utf16 ''version'', Str (utf16 ''1.0.0'')),
                        (utf16 ''exportedAt'', Str (utf16 ''2023-01-01T00:00:00.000Z''))])
        else if s = invalid_structure_text
        then Some (Obj [(utf16 ''invalid'', Str (utf16 ''data''))])
        else if s = not_sequences_text
        then Some (Obj [(utf16 ''templates'', Str (utf16 ''abc'')),
                        (utf16 ''variables'', Num (Finite 5))])
        else None),
      JSON_stringify = (\<lambda>v. example_export_text),
      Date_parse = (\<lambda>s. if s = utf16 ''2023-01-01T00:00:00.000Z'' then Some 1672531200000 else None),
      Date_toISOString = (\<lambda>t. utf16 ''2023-01-01T00:00:00.000Z''),
      Date_of_object = (\<lambda>v. Inr None)\<rparr>"


section \<open>Properties of the scan\<close>

lemma regex_exec_parts:
  assumes "regex_exec s = Some (pre, whole, cap, rest)"
  shows "s = pre @ whole @ rest" and "whole = [LBRACE, LBRACE] @ cap @ [RBRACE, RBRACE]"
    and "cap \<noteq> []" and "RBRACE \<notin> set cap"
    and "cap = takeWhile (\<lambda>c. c \<noteq> RBRACE) (drop (length pre + 2) s)"
proof -
  note s = regex_exec_Some [OF assms, THEN conjunct1]
  note m = regex_exec_Some [OF assms, THEN conjunct2, THEN conjunct1]
  show "s = pre @ whole @ rest" by (rule s)
  show w: "whole = [LBRACE, LBRACE] @ cap @ [RBRACE, RBRACE]" by (rule match_here_Some(2) [OF m])
  show "cap \<noteq> []" by (rule match_here_Some(3) [OF m])
  show "RBRACE \<notin> set cap" by (rule match_here_Some(4) [OF m])
  have "drop (length pre + 2) s = drop 2 (whole @ rest)"
    unfolding s by (simp add: add.commute)
  with match_here_Some(5) [OF m]
  show "cap = takeWhile (\<lambda>c. c \<noteq> RBRACE) (drop (length pre + 2) s)" by simp
qed

lemma regex_exec_None_iff: "regex_exec c = None \<longleftrightarrow> \<not> contains_placeholder c"
proof
  assume n: "regex_exec c = None"
  show "\<not> contains_placeholder c"
  proof
    assume "contains_placeholder c"
    then obtain pre inner post
      where c: "c = pre @ [LBRACE, LBRACE] @ inner @ [RBRACE, RBRACE] @ post"
        and i: "inner \<noteq> []" "RBRACE \<notin> set inner"
      unfolding contains_placeholder_def by blast
    from c have "drop (length pre) c = [LBRACE, LBRACE] @ inner @ [RBRACE, RBRACE] @ post"
      by simp
    with match_here_complete [OF i, of post] have "match_here (drop (length pre) c) \<noteq> None"
      by simp
    with n [unfolded regex_exec_None, rule_format, of "length pre"] show False by simp
  qed
next
  assume nc: "\<not> contains_placeholder c"
  show "regex_exec c = None"
  proof (cases "regex_exec c")
    case None
    then show ?thesis .
  next
    case (Some r)
    obtain pre whole cap rest where r: "r = (pre, whole, cap, rest)"
      by (cases r) auto
    note e = Some [unfolded r]
    have "c = pre @ [LBRACE, LBRACE] @ cap @ [RBRACE, RBRACE] @ rest"
      using regex_exec_parts(1) [OF e] unfolding regex_exec_parts(2) [OF e] by simp
    with regex_exec_parts(3,4) [OF e] have "contains_placeholder c"
      unfolding contains_placeholder_def by blast
    with nc show ?thesis by simp
  qed
qed

lemma scan_None: "regex_exec s = None \<Longrightarrow> scan s = [Literal s]"
  by (subst scan.simps) simp

lemma scan_Some:
  "regex_exec s = Some (pre, whole, cap, rest) \<Longrightarrow>
     scan s = Literal pre # Placeholder cap # scan rest"
  by (subst scan.simps) simp

lemma scan_source: "concat (map source_text (scan s)) = s"
proof (induction s rule: scan.induct)
  case (1 str)
  show ?case
  proof (cases "regex_exec str")
    case None
    then show ?thesis by (simp add: scan_None)
  next
    case (Some r)
    obtain pre whole cap rest where r: "r = (pre, whole, cap, rest)"
      by (cases r) auto
    note e = Some [unfolded r]
    from "1.IH" [OF e refl refl refl] have ih: "concat (map source_text (scan rest)) = rest" .
    have "concat (map source_text (scan str)) = pre @ whole @ rest"
      unfolding scan_Some [OF e] regex_exec_parts(2) [OF e] using ih by simp
    then show ?thesis unfolding regex_exec_parts(1) [OF e, symmetric] .
  qed
qed

lemma scan_placeholders:
  "inner \<in> set (placeholders (scan s)) \<Longrightarrow> inner \<noteq> [] \<and> RBRACE \<notin> set inner"
proof (induction s rule: scan.induct)
  case (1 str)
  show ?case
  proof (cases "regex_exec str")
    case None
    with "1.prems" show ?thesis by (simp add: scan_None)
  next
    case (Some r)
    obtain pre whole cap rest where r: "r = (pre, whole, cap, rest)"
      by (cases r) auto
    note e = Some [unfolded r]
    from "1.prems" have "inner = cap \<or> inner \<in> set (placeholders (scan rest))"
      by (simp add: scan_Some [OF e])
    then show ?thesis
    proof
      assume "inner = cap"
      with regex_exec_parts(3,4) [OF e] show ?thesis by simp
    next
      assume "inner \<in> set (placeholders (scan rest))"
      with "1.IH" [OF e refl refl refl] show ?thesis .
    qed
  qed
qed


lemma scan_literals: "Literal l \<in> set (scan s) \<Longrightarrow> \<not> contains_placeholder l"
proof (induction s rule: scan.induct)
  case (1 str)
  show ?case
  proof (cases "regex_exec str")
    case None
    with "1.prems" have "l = str" by (simp add: scan_None)
    with None show ?thesis by (simp add: regex_exec_None_iff)
  next
    case (Some r)
    obtain pre whole cap rest where r: "r = (pre, whole, cap, rest)"
      by (cases r) auto
    note e = Some [unfolded r]
    from "1.prems" have "l = pre \<or> Literal l \<in> set (scan rest)"
      by (simp add: scan_Some [OF e])
    then show ?thesis
    proof
      assume l: "l = pre"
      show ?thesis
      proof
        assume "contains_placeholder l"
        then obtain a inner b
          where p: "pre = a @ [LBRACE, LBRACE] @ inner @ [RBRACE, RBRACE] @ b"
            and i: "inner \<noteq> []" "RBRACE \<notin> set inner"
          unfolding l contains_placeholder_def by blast
        have "str = a @ [LBRACE, LBRACE] @ inner @ [RBRACE, RBRACE] @ (b @ whole @ rest)"
          unfolding regex_exec_parts(1) [OF e] by (subst p) simp
        then have "drop (length a) str
            = [LBRACE, LBRACE] @ inner @ [RBRACE, RBRACE] @ (b @ whole @ rest)"
          by simp
        with match_here_complete [OF i, of "b @ whole @ rest"]
        have m: "match_here (drop (length a) str) \<noteq> None" by simp
        from p have "length a < length pre" by simp
        with regex_exec_Some [OF e, THEN conjunct2, THEN conjunct2, rule_format, of "length a"]
        have "match_here (drop (length a) str) = None" .
        with m show False by simp
      qed
    next
      assume "Literal l \<in> set (scan rest)"
      with "1.IH" [OF e refl refl refl] show ?thesis .
    qed
  qed
qed


section \<open>Properties of the dedup\<close>

lemma set_dedup_first: "set (dedup_first xs) = set xs"
  by (induction xs) auto

lemma distinct_dedup_first: "distinct (dedup_first xs)"
  by (induction xs) (auto simp: set_dedup_first)

lemma dedup_first_filter: "dedup_first (filter P xs) = filter P (dedup_first xs)"
proof (induction xs)
  case Nil
  then show ?case by simp
next
  case (Cons x xs)
  show ?case
  proof (cases "P x")
    case True
    with Cons.IH show ?thesis by (simp add: conj_commute)
  next
    case False
    have "filter P (filter (\<lambda>y. y \<noteq> x) (dedup_first xs)) = filter P (dedup_first xs)"
      unfolding filter_filter using False by (intro filter_cong) auto
    with False Cons.IH show ?thesis by simp
  qed
qed

lemma remdups_snoc: "remdups (xs @ [x]) = filter (\<lambda>y. y \<noteq> x) (remdups xs) @ [x]"
  by (induction xs) auto

lemma dedup_first_remdups: "dedup_first xs = rev (remdups (rev xs))"
proof (induction xs)
  case Nil
  then show ?case by simp
next
  case (Cons x xs)
  from Cons.IH show ?case by (simp add: remdups_snoc rev_filter)
qed


section \<open>The loops, in terms of the scan\<close>

lemma extract_loop_None: "regex_exec s = None \<Longrightarrow> extract_loop s vars = vars"
  by (subst extract_loop.simps) simp

lemma extract_loop_Some:
  "regex_exec s = Some (pre, whole, cap, rest) \<Longrightarrow>
     extract_loop s vars =
       extract_loop rest
         (if trim cap \<noteq> [] \<and> trim cap \<notin> set vars then vars @ [trim cap] else vars)"
  by (subst extract_loop.simps) (simp add: Let_def)

lemma extract_loop_eq:
  "extract_loop s vars =
     vars @ filter (\<lambda>n. n \<notin> set vars)
              (dedup_first (filter (\<lambda>n. n \<noteq> []) (map trim (placeholders (scan s)))))"
proof (induction s vars rule: extract_loop.induct)
  case (1 str variables)
  show ?case
  proof (cases "regex_exec str")
    case None
    then show ?thesis by (simp add: extract_loop_None scan_None)
  next
    case (Some r)
    obtain pre whole cap rest where r: "r = (pre, whole, cap, rest)"
      by (cases r) auto
    note e = Some [unfolded r]
    let ?D = "dedup_first (filter (\<lambda>n. n \<noteq> []) (map trim (placeholders (scan rest))))"
    show ?thesis
    proof (cases "trim cap \<noteq> [] \<and> trim cap \<notin> set variables")
      case True
      from "1.IH"(1) [OF e refl refl refl refl True]
      have ih: "extract_loop rest (variables @ [trim cap]) =
          (variables @ [trim cap]) @ filter (\<lambda>n. n \<notin> set (variables @ [trim cap])) ?D" .
      have f: "filter (\<lambda>n. n \<notin> set (variables @ [trim cap])) ?D =
          filter (\<lambda>n. n \<notin> set variables) (filter (\<lambda>y. y \<noteq> trim cap) ?D)"
        unfolding filter_filter by (intro filter_cong) auto
      from True show ?thesis
        unfolding extract_loop_Some [OF e] scan_Some [OF e] by (simp add: ih f)
    next
      case False
      from "1.IH"(2) [OF e refl refl refl refl False]
      have ih: "extract_loop rest variables = variables @ filter (\<lambda>n. n \<notin> set variables) ?D" .
      show ?thesis
      proof (cases "trim cap = []")
        case True
        then show ?thesis
          unfolding extract_loop_Some [OF e] scan_Some [OF e] by (simp add: ih)
      next
        case ne: False
        with False have mem: "trim cap \<in> set variables" by simp
        have f: "filter (\<lambda>x. x \<noteq> trim cap \<and> x \<notin> set variables) ?D =
            filter (\<lambda>n. n \<notin> set variables) ?D"
          using mem by (intro filter_cong) auto
        from ne mem show ?thesis
          unfolding extract_loop_Some [OF e] scan_Some [OF e] by (simp add: ih f)
      qed
    qed
  qed
qed

lemma extractVariables_eq:
  "extractVariables c = dedup_first (filter (\<lambda>n. n \<noteq> []) (map trim (placeholders (scan c))))"
  unfolding extractVariables_def extract_loop_eq by simp

lemma distinct_extractVariables: "distinct (extractVariables c)"
  unfolding extractVariables_eq by (rule distinct_dedup_first)

lemma String_replace_None: "regex_exec s = None \<Longrightarrow> String_replace f s = s"
  by (subst String_replace.simps) simp

lemma String_replace_Some:
  "regex_exec s = Some (pre, whole, cap, rest) \<Longrightarrow>
     String_replace f s = pre @ f whole cap @ String_replace f rest"
  by (subst String_replace.simps) simp

lemma String_replace_scan:
  "String_replace f s =
     concat (map (\<lambda>seg. case seg of Literal l \<Rightarrow> l
                        | Placeholder inner \<Rightarrow> f (source_text seg) inner) (scan s))"
proof (induction s rule: scan.induct)
  case (1 str)
  show ?case
  proof (cases "regex_exec str")
    case None
    then show ?thesis by (simp add: String_replace_None scan_None)
  next
    case (Some r)
    obtain pre whole cap rest where r: "r = (pre, whole, cap, rest)"
      by (cases r) auto
    note e = Some [unfolded r]
    note ih = "1.IH" [OF e refl refl refl]
    show ?thesis
      unfolding String_replace_Some [OF e] scan_Some [OF e] ih
      by (simp add: regex_exec_parts(2) [OF e])
  qed
qed

lemma replacer_substituted:
  "(case seg of Literal l \<Rightarrow> l | Placeholder inner \<Rightarrow> replacer m (source_text seg) inner)
     = substituted m seg"
  by (cases seg) (auto simp: replacer_def Let_def split: option.splits)

lemma processTemplate_eq:
  "processTemplate t vs = concat (map (substituted (variableMap vs)) (scan (content t)))"
  unfolding processTemplate_def Let_def String_replace_scan replacer_substituted ..

lemma variableMap_eq: "variableMap vs = map_of (rev (map (\<lambda>v. (name v, val v)) vs))"
proof -
  have "foldl (\<lambda>m v. m(name v \<mapsto> val v)) m0 vs
      = m0 ++ map_of (rev (map (\<lambda>v. (name v, val v)) vs))" for m0
    by (induction vs arbitrary: m0) (simp_all add: map_add_upd_left)
  then show ?thesis unfolding variableMap_def by simp
qed


section \<open>The placeholder engine: extraction\<close>

text \<open>
  C1, as the code has it. For every content, \<open>extractVariables\<close> returns the names of
  the placeholders of the content, trimmed, without the empty name, each name once and at
  the place of its first occurrence; the result has no duplicates, and a second extraction
  from the same content returns the same sequence. The claim as written counts the empty
  name among the names returned; the guard \<open>variableName &&\<close> of the loop leaves it out.
\<close>

theorem extractVariables_first_occurrences:
  "extractVariables c = dedup_first (filter (\<lambda>n. n \<noteq> []) (map trim (placeholders (scan c))))
   \<and> distinct (extractVariables c)
   \<and> set (extractVariables c) = set (map trim (placeholders (scan c))) - {[]}
   \<and> (let first = extractVariables c; second = extractVariables c in second = first)"
proof -
  have "set (extractVariables c) = set (map trim (placeholders (scan c))) - {[]}"
    unfolding extractVariables_eq set_dedup_first by auto
  with extractVariables_eq [of c] distinct_extractVariables [of c] show ?thesis
    by (simp add: Let_def)
qed

text \<open>
  C1 as written fails on the content \<open>{{a}}{{ }}\<close>: its placeholders have the trimmed
  names \<open>a\<close> and the empty string, and the empty string is not in the result.
\<close>

theorem extractVariables_first_occurrences_counterexample:
  "map trim (placeholders (scan (utf16 ''{{a}}{{ }}''))) = [utf16 ''a'', []]
   \<and> extractVariables (utf16 ''{{a}}{{ }}'') = [utf16 ''a'']
   \<and> extractVariables (utf16 ''{{a}}{{ }}'')
       \<noteq> dedup_first (map trim (placeholders (scan (utf16 ''{{a}}{{ }}''))))"
  by code_simp

text \<open>
  C6, as the code has it. For every content, the empty string is never among the names
  that \<open>extractVariables\<close> returns: a placeholder whose inner text trims to the empty
  string is skipped.
\<close>

theorem extractVariables_skips_empty_name:
  "[] \<notin> set (extractVariables c)"
  unfolding extractVariables_eq set_dedup_first by simp

text \<open>
  C6 as written fails on the content \<open>{{ }}\<close>: the pattern matches it, the inner text is
  one space and trims to the empty string, and the result is the empty sequence.
\<close>

theorem extractVariables_empty_name_counterexample:
  "regex_exec (utf16 ''{{ }}'') = Some ([], utf16 ''{{ }}'', utf16 '' '', [])
   \<and> trim (utf16 '' '') = []
   \<and> extractVariables (utf16 ''{{ }}'') = []"
  by code_simp


section \<open>The placeholder engine: substitution\<close>

text \<open>
  C2. For every template and every list of variables, the result of \<open>processTemplate\<close>
  is the content with every placeholder occurrence (each one, repeats included) replaced
  with the value that the variable map holds under the trimmed inner name, and left as it
  is written, braces included, where the map has no value or the empty value for that
  name; the text between the occurrences is kept. The occurrences and the text between them
  make up the content, and no text between them has an occurrence of the marker pattern.
  The variable map holds, for a name, the value of the last variable of that name.
\<close>

theorem processTemplate_substitutes_every_occurrence:
  "processTemplate t vs = concat (map (substituted (variableMap vs)) (scan (content t)))
   \<and> concat (map source_text (scan (content t))) = content t
   \<and> (\<forall>l. Literal l \<in> set (scan (content t)) \<longrightarrow> \<not> contains_placeholder l)
   \<and> variableMap vs = map_of (rev (map (\<lambda>v. (name v, val v)) vs))"
  using processTemplate_eq [of t vs] scan_source [of "content t"] variableMap_eq [of vs]
    scan_literals [of _ "content t"]
  by simp

theorem processTemplate_substitutes_every_occurrence_witness:
  "scan (utf16 ''a{{ b }}{{c}}{{ b }}'')
     = [Literal (utf16 ''a''), Placeholder (utf16 '' b ''), Literal [],
        Placeholder (utf16 ''c''), Literal [], Placeholder (utf16 '' b ''), Literal []]
   \<and> \<not> contains_placeholder (utf16 ''a'')
   \<and> processTemplate
        \<lparr>template_id = utf16 ''1'', title = utf16 ''Test'',
          content = utf16 ''a{{ b }}{{c}}{{ b }}'',
          template_createdAt = Some 0, template_updatedAt = Some 0\<rparr>
        [\<lparr>variable_id = utf16 ''1'', name = utf16 ''b'', val = utf16 ''X'',
          description = None, variable_createdAt = Some 0, variable_updatedAt = Some 0\<rparr>]
       = utf16 ''aX{{c}}X''"
proof -
  let ?t = "\<lparr>template_id = utf16 ''1'', title = utf16 ''Test'',
          content = utf16 ''a{{ b }}{{c}}{{ b }}'',
          template_createdAt = Some 0, template_updatedAt = Some 0\<rparr>"
  let ?vs = "[\<lparr>variable_id = utf16 ''1'', name = utf16 ''b'', val = utf16 ''X'',
          description = None, variable_createdAt = Some 0, variable_updatedAt = Some 0\<rparr>]"
  have sc: "scan (utf16 ''a{{ b }}{{c}}{{ b }}'')
     = [Literal (utf16 ''a''), Placeholder (utf16 '' b ''), Literal [],
        Placeholder (utf16 ''c''), Literal [], Placeholder (utf16 '' b ''), Literal []]"
    by code_simp
  then have "Literal (utf16 ''a'') \<in> set (scan (content ?t))" by simp
  with processTemplate_substitutes_every_occurrence [of ?t ?vs]
  have 1: "\<not> contains_placeholder (utf16 ''a'')" by blast
  have 2: "processTemplate ?t ?vs = utf16 ''aX{{c}}X''" by code_simp
  from sc 1 2 show ?thesis by (intro conjI)
qed

text \<open>
  C9. For every template whose content has no occurrence of the marker pattern, and every
  list of variables, \<open>processTemplate\<close> returns the content unchanged.
\<close>

theorem processTemplate_identity_without_placeholders:
  assumes "\<not> contains_placeholder (content t)"
  shows "processTemplate t vs = content t"
proof -
  from assms have "regex_exec (content t) = None"
    by (simp add: regex_exec_None_iff)
  then show ?thesis
    unfolding processTemplate_def Let_def by (rule String_replace_None)
qed

theorem processTemplate_identity_without_placeholders_witness:
  "\<not> contains_placeholder (utf16 ''Hello world.'')
   \<and> processTemplate
        \<lparr>template_id = utf16 ''1'', title = utf16 ''Test'', content = utf16 ''Hello world.'',
          template_createdAt = Some 0, template_updatedAt = Some 0\<rparr>
        [\<lparr>variable_id = utf16 ''1'', name = utf16 ''name'', val = utf16 ''John Doe'',
          description = None, variable_createdAt = Some 0, variable_updatedAt = Some 0\<rparr>]
       = utf16 ''Hello world.''"
proof -
  have "regex_exec (utf16 ''Hello world.'') = None"
    by code_simp
  then have h: "\<not> contains_placeholder (utf16 ''Hello world.'')"
    by (simp add: regex_exec_None_iff)
  let ?t = "\<lparr>template_id = utf16 ''1'', title = utf16 ''Test'',
    content = utf16 ''Hello world.'', template_createdAt = Some 0,
    template_updatedAt = Some 0\<rparr>"
  from h have "\<not> contains_placeholder (content ?t)" by simp
  from processTemplate_identity_without_placeholders [OF this] h
  show ?thesis by simp
qed


section \<open>The placeholder engine: the matching\<close>

text \<open>
  C5. The matching is not a balanced-brace parse. Wherever \<open>exec\<close> finds a match, the
  inner text is the whole run of code units from behind the two opening braces up to the
  next closing brace, it is not empty, and the match is the two opening braces, that run
  and two closing braces; so the content \<open>{{order_{{type}}_id}}\<close> has the one
  placeholder name \<open>order_{{type\<close>. Extraction and substitution work on the same matches:
  the names extracted are the trimmed, non-empty inner texts of the placeholders that the
  substitution replaces, and a variable named \<open>order_{{type\<close> is substituted there.
\<close>

theorem placeholder_matching_is_not_balanced:
  "(\<forall>s pre whole cap rest.
      regex_exec s = Some (pre, whole, cap, rest) \<longrightarrow>
        s = pre @ whole @ rest
        \<and> whole = [LBRACE, LBRACE] @ cap @ [RBRACE, RBRACE]
        \<and> cap = takeWhile (\<lambda>c. c \<noteq> RBRACE) (drop (length pre + 2) s)
        \<and> cap \<noteq> [])
   \<and> (\<forall>c vs. set (extractVariables c) = set (map trim (placeholders (scan c))) - {[]}
        \<and> processTemplate \<lparr>template_id = [], title = [], content = c,
             template_createdAt = None, template_updatedAt = None\<rparr> vs
           = concat (map (substituted (variableMap vs)) (scan c)))
   \<and> extractVariables (utf16 ''{{order_{{type}}_id}}'') = [utf16 ''order_{{type'']
   \<and> processTemplate
        \<lparr>template_id = [], title = [], content = utf16 ''{{order_{{type}}_id}}'',
          template_createdAt = None, template_updatedAt = None\<rparr>
        [\<lparr>variable_id = [], name = utf16 ''order_{{type'', val = utf16 ''X'',
          description = None, variable_createdAt = None, variable_updatedAt = None\<rparr>]
       = utf16 ''X_id}}''"
proof (intro conjI allI impI)
  fix s pre whole cap rest
  assume e: "regex_exec s = Some (pre, whole, cap, rest)"
  show "s = pre @ whole @ rest" by (rule regex_exec_parts(1) [OF e])
  show "whole = [LBRACE, LBRACE] @ cap @ [RBRACE, RBRACE]" by (rule regex_exec_parts(2) [OF e])
  show "cap = takeWhile (\<lambda>c. c \<noteq> RBRACE) (drop (length pre + 2) s)"
    by (rule regex_exec_parts(5) [OF e])
  show "cap \<noteq> []" by (rule regex_exec_parts(3) [OF e])
next
  fix c
  show "set (extractVariables c) = set (map trim (placeholders (scan c))) - {[]}"
    unfolding extractVariables_eq set_dedup_first by auto
next
  fix c vs
  show "processTemplate \<lparr>template_id = [], title = [], content = c,
      template_createdAt = None, template_updatedAt = None\<rparr> vs
    = concat (map (substituted (variableMap vs)) (scan c))"
    unfolding processTemplate_eq by simp
next
  show "extractVariables (utf16 ''{{order_{{type}}_id}}'') = [utf16 ''order_{{type'']"
    by code_simp
next
  show "processTemplate
        \<lparr>template_id = [], title = [], content = utf16 ''{{order_{{type}}_id}}'',
          template_createdAt = None, template_updatedAt = None\<rparr>
        [\<lparr>variable_id = [], name = utf16 ''order_{{type'', val = utf16 ''X'',
          description = None, variable_createdAt = None, variable_updatedAt = None\<rparr>]
       = utf16 ''X_id}}''"
    by code_simp
qed

theorem placeholder_matching_is_not_balanced_witness:
  "regex_exec (utf16 ''a{{b{{c}}d}}'') = Some (utf16 ''a'', utf16 ''{{b{{c}}'', utf16 ''b{{c'', utf16 ''d}}'')
   \<and> utf16 ''b{{c'' = takeWhile (\<lambda>c. c \<noteq> RBRACE) (drop (length (utf16 ''a'') + 2) (utf16 ''a{{b{{c}}d}}''))
   \<and> utf16 ''a{{b{{c}}d}}'' = utf16 ''a'' @ utf16 ''{{b{{c}}'' @ utf16 ''d}}''"
proof -
  have e: "regex_exec (utf16 ''a{{b{{c}}d}}'')
      = Some (utf16 ''a'', utf16 ''{{b{{c}}'', utf16 ''b{{c'', utf16 ''d}}'')"
    by code_simp
  from placeholder_matching_is_not_balanced [THEN conjunct1, rule_format, OF e] e
  show ?thesis by blast
qed


section \<open>The placeholder engine: validation\<close>

lemma validate_foldl:
  "foldl (\<lambda>errors n. if P n then errors @ [f n] else errors) acc ns
     = acc @ map f (filter P ns)"
  by (induction ns arbitrary: acc) simp_all

lemma validateTemplate_eq:
  "validateTemplate t vs =
     map (\<lambda>n. \<lparr>field = utf16 ''content'',
               message = utf16 ''Variable '' @ [QUOTE] @ n @ [QUOTE]
                         @ utf16 '' is not defined in settings''\<rparr>)
       (filter (\<lambda>n. n \<notin> set (map name vs)) (extractVariables (content t)))"
  unfolding validateTemplate_def Let_def validate_foldl by simp

text \<open>
  C4. For every template and every list of available variables, \<open>validateTemplate\<close>
  returns, for the extracted names that are not the name of an available variable, in the
  order of extraction, one error each, whose field is \<open>content\<close> and whose message is
  \<open>Variable '<name>' is not defined in settings\<close> with the name verbatim. These names
  are distinct, so there is exactly one error for each of them, and there is no error for
  a name that an available variable has.
\<close>

theorem validateTemplate_one_error_per_missing_name:
  "validateTemplate t vs =
     map (\<lambda>n. \<lparr>field = utf16 ''content'',
               message = utf16 ''Variable '' @ [QUOTE] @ n @ [QUOTE]
                         @ utf16 '' is not defined in settings''\<rparr>)
       (filter (\<lambda>n. n \<notin> name ` set vs) (extractVariables (content t)))
   \<and> distinct (filter (\<lambda>n. n \<notin> name ` set vs) (extractVariables (content t)))
   \<and> length (validateTemplate t vs)
       = card (set (extractVariables (content t)) - name ` set vs)"
proof -
  let ?missing = "filter (\<lambda>n. n \<notin> name ` set vs) (extractVariables (content t))"
  have d: "distinct ?missing"
    by (rule distinct_filter) (rule distinct_extractVariables)
  have "set ?missing = set (extractVariables (content t)) - name ` set vs"
    by auto
  with distinct_card [OF d]
  have "card (set (extractVariables (content t)) - name ` set vs) = length ?missing"
    by simp
  with d validateTemplate_eq [of t vs] show ?thesis by simp
qed


section \<open>The persistence adapter: loading\<close>

lemma load_resolves: "\<exists>items s'. load rt chrome key s = (Inr items, s')"
  unfolding load_def by (auto split: prod.splits sum.splits)

lemma load_read_failure:
  "local_get chrome key s = (Inl e, s') \<Longrightarrow> load rt chrome key s = (Inr [], s')"
  unfolding load_def by (simp add: bind_exn_def)

lemma load_absent_key:
  "local_get chrome key s = (Inr (Obj kvs), s') \<Longrightarrow> map_of kvs key = None \<Longrightarrow>
     load rt chrome key s = (Inr [], s')"
  unfolding load_def by (simp add: bind_exn_def load_try_def)

text \<open>
  C8. For every runtime, every store behaviour and every state of the store,
  \<open>getTemplates\<close> and \<open>getVariables\<close> resolve (they never throw); when the read of
  the store fails they resolve to the empty sequence, and when the result of the read has
  no item under the key they resolve to the empty sequence.
\<close>

theorem load_never_throws:
  "(\<exists>items s'. getTemplates rt chrome s = (Inr items, s'))
   \<and> (\<exists>items s'. getVariables rt chrome s = (Inr items, s'))
   \<and> (\<forall>e s'. local_get chrome TEMPLATES s = (Inl e, s')
         \<longrightarrow> getTemplates rt chrome s = (Inr [], s'))
   \<and> (\<forall>e s'. local_get chrome VARIABLES s = (Inl e, s')
         \<longrightarrow> getVariables rt chrome s = (Inr [], s'))
   \<and> (\<forall>kvs s'. local_get chrome TEMPLATES s = (Inr (Obj kvs), s') \<and> map_of kvs TEMPLATES = None
         \<longrightarrow> getTemplates rt chrome s = (Inr [], s'))
   \<and> (\<forall>kvs s'. local_get chrome VARIABLES s = (Inr (Obj kvs), s') \<and> map_of kvs VARIABLES = None
         \<longrightarrow> getVariables rt chrome s = (Inr [], s'))"
  unfolding getTemplates_def getVariables_def
  using load_resolves [of rt chrome TEMPLATES s] load_resolves [of rt chrome VARIABLES s]
  by (auto simp: load_read_failure load_absent_key)


theorem load_never_throws_witness:
  "local_get failing_store TEMPLATES () = (Inl (Error (utf16 ''Storage error'')), ())
   \<and> getTemplates example_runtime failing_store () = (Inr [], ())
   \<and> local_get memory_store VARIABLES [] = (Inr (Obj []), [])
   \<and> map_of ([] :: (jsstring \<times> jsval) list) VARIABLES = None
   \<and> getVariables example_runtime memory_store [] = (Inr [], [])"
proof -
  have f: "local_get failing_store TEMPLATES () = (Inl (Error (utf16 ''Storage error'')), ())"
    by (simp add: failing_store_def)
  have m: "local_get memory_store VARIABLES [] = (Inr (Obj []), [])
      \<and> map_of ([] :: (jsstring \<times> jsval) list) VARIABLES = None"
    by (simp add: memory_store_def)
  from load_never_throws [of example_runtime failing_store "()"] f
  have 1: "getTemplates example_runtime failing_store () = (Inr [], ())"
    by blast
  from load_never_throws [of example_runtime memory_store "[]"] m
  have 2: "getVariables example_runtime memory_store [] = (Inr [], [])"
    by blast
  from f m 1 2 show ?thesis by simp
qed


section \<open>The persistence adapter: rejected imports\<close>

lemma importData_outcome:
  "fst (importData rt chrome jsonData s) = Inr ()
   \<or> fst (importData rt chrome jsonData s) = Inl IMPORT_FAILED"
  unfolding importData_def by (auto split: sum.splits prod.splits)

lemma importData_try_fails:
  "import_try rt jsonData = Inl e \<Longrightarrow> importData rt chrome jsonData s = (Inl IMPORT_FAILED, s)"
  unfolding importData_def by simp

text \<open>
  C7. For every runtime, every store behaviour and every state of the store: when the text
  is not parseable, and when it parses to an object that lacks the field \<open>templates\<close> or
  the field \<open>variables\<close>, \<open>importData\<close> is rejected with the one error of the import and
  the state of the store is the one before the call, so nothing was written. Whatever the
  text, the outcome is either success or that one error.
\<close>

theorem importData_rejects_malformed:
  assumes "JSON_parse rt jsonData = None
     \<or> (\<exists>kvs. JSON_parse rt jsonData = Some (Obj kvs)
          \<and> (map_of kvs (utf16 ''templates'') = None \<or> map_of kvs (utf16 ''variables'') = None))"
  shows "importData rt chrome jsonData s = (Inl IMPORT_FAILED, s)
     \<and> Inl IMPORT_FAILED \<noteq> (Inr () :: exn + unit)
     \<and> (fst (importData rt chrome other s) = Inr ()
          \<or> fst (importData rt chrome other s) = Inl IMPORT_FAILED)"
proof -
  from assms have "\<exists>e. import_try rt jsonData = Inl e"
    unfolding import_try_def by (auto simp: bind_exn_def)
  then have "importData rt chrome jsonData s = (Inl IMPORT_FAILED, s)"
    by (auto intro: importData_try_fails)
  with importData_outcome [of rt chrome other s] show ?thesis by simp
qed

theorem importData_rejects_malformed_witness:
  "JSON_parse example_runtime (utf16 ''invalid json'') = None
   \<and> importData example_runtime memory_store (utf16 ''invalid json'') []
       = (Inl IMPORT_FAILED, [])
   \<and> JSON_parse example_runtime invalid_structure_text
       = Some (Obj [(utf16 ''invalid'', Str (utf16 ''data''))])
   \<and> map_of [(utf16 ''invalid'', Str (utf16 ''data''))] (utf16 ''templates'') = None
   \<and> importData example_runtime memory_store invalid_structure_text []
       = (Inl IMPORT_FAILED, [])"
proof -
  have 1: "JSON_parse example_runtime (utf16 ''invalid json'') = None"
    by code_simp
  have 2: "JSON_parse example_runtime invalid_structure_text
       = Some (Obj [(utf16 ''invalid'', Str (utf16 ''data''))])"
    by code_simp
  have 3: "map_of [(utf16 ''invalid'', Str (utf16 ''data''))] (utf16 ''templates'') = None"
    by (simp add: utf16_def)
  from importData_rejects_malformed [of example_runtime "utf16 ''invalid json''" memory_store "[]"] 1
  have 4: "importData example_runtime memory_store (utf16 ''invalid json'') []
       = (Inl IMPORT_FAILED, [])"
    by blast
  from importData_rejects_malformed [of example_runtime invalid_structure_text memory_store "[]"] 2 3
  have 5: "importData example_runtime memory_store invalid_structure_text []
       = (Inl IMPORT_FAILED, [])"
    by blast
  from 1 2 3 4 5 show ?thesis by blast
qed

text \<open>
  C10. For every runtime, every store behaviour and every state of the store: when the text
  parses to a value whose fields \<open>templates\<close> and \<open>variables\<close> are both truthy and one
  of them is not an array, \<open>importData\<close> is rejected with the one error of the import
  and the state of the store is the one before the call. The check of the two fields
  passes; the call of \<open>map\<close> on the field that is not an array throws, before
  \<open>saveAllData\<close> is called.
\<close>

theorem importData_rejects_non_sequences:
  assumes "JSON_parse rt jsonData = Some v"
    and "Get v (utf16 ''templates'') = Inr ts" and "ToBoolean ts"
    and "Get v (utf16 ''variables'') = Inr vs" and "ToBoolean vs"
    and "(\<forall>xs. ts \<noteq> Arr xs) \<or> (\<forall>xs. vs \<noteq> Arr xs)"
  shows "importData rt chrome jsonData s = (Inl IMPORT_FAILED, s)
     \<and> (\<exists>e. bind_exn (call_map ts (rehydrate rt)) (\<lambda>templates. call_map vs (rehydrate rt))
            = Inl e)"
proof -
  have nt: "call_map x f = Inl TypeError" if "\<forall>xs. x \<noteq> Arr xs" for x f
    using that by (cases x) simp_all
  have body: "import_try rt jsonData =
      bind_exn (call_map ts (rehydrate rt)) (\<lambda>templates.
      bind_exn (call_map vs (rehydrate rt)) (\<lambda>variables. Inr (templates, variables)))"
    unfolding import_try_def using assms(1-5) by (simp add: bind_exn_def)
  from assms(6)
  have maps: "\<exists>e. bind_exn (call_map ts (rehydrate rt)) (\<lambda>templates. call_map vs (rehydrate rt))
      = Inl e"
  proof
    assume "\<forall>xs. ts \<noteq> Arr xs"
    then show ?thesis by (simp add: nt bind_exn_def)
  next
    assume "\<forall>xs. vs \<noteq> Arr xs"
    then show ?thesis
      by (cases "call_map ts (rehydrate rt)") (simp_all add: nt bind_exn_def)
  qed
  then have "\<exists>e. import_try rt jsonData = Inl e"
    unfolding body by (cases "call_map ts (rehydrate rt)") (auto simp: bind_exn_def)
  then have "importData rt chrome jsonData s = (Inl IMPORT_FAILED, s)"
    by (auto intro: importData_try_fails)
  with maps show ?thesis by simp
qed

theorem importData_rejects_non_sequences_witness:
  "JSON_parse example_runtime not_sequences_text
     = Some (Obj [(utf16 ''templates'', Str (utf16 ''abc'')),
                  (utf16 ''variables'', Num (Finite 5))])
   \<and> ToBoolean (Str (utf16 ''abc'')) \<and> ToBoolean (Num (Finite 5))
   \<and> importData example_runtime memory_store not_sequences_text [] = (Inl IMPORT_FAILED, [])"
proof -
  let ?v = "Obj [(utf16 ''templates'', Str (utf16 ''abc'')),
                 (utf16 ''variables'', Num (Finite 5))]"
  have 1: "JSON_parse example_runtime not_sequences_text = Some ?v"
    by code_simp
  have 2: "Get ?v (utf16 ''templates'') = Inr (Str (utf16 ''abc''))"
    by (simp add: utf16_def)
  have 3: "Get ?v (utf16 ''variables'') = Inr (Num (Finite 5))"
    by (simp add: utf16_def)
  have 4: "ToBoolean (Str (utf16 ''abc''))" "ToBoolean (Num (Finite 5))"
    by (simp_all add: utf16_def)
  have 5: "(\<forall>xs. Str (utf16 ''abc'') \<noteq> Arr xs) \<or> (\<forall>xs. Num (Finite 5) \<noteq> Arr xs)"
    by simp
  from importData_rejects_non_sequences [OF 1 2 4(1) 3 4(2) 5, of memory_store "[]"]
  have "importData example_runtime memory_store not_sequences_text [] = (Inl IMPORT_FAILED, [])"
    by blast
  with 1 4 show ?thesis by blast
qed


section \<open>The persistence adapter: export and import\<close>









































end
